theory Spec2Isabelle
  imports Main "HOL-Library.Sublist"
begin

section \<open>Python strings and cell values\<close>

text \<open>
  A Python \<open>str\<close> is a sequence of Unicode code points; \<open>len\<close>, slicing and the
  \<open>re\<close> module all count code points. A string is therefore a list of code points
  (natural numbers), not a list of 8-bit characters.
\<close>

type_synonym pystr = "nat list"

definition ustr :: "string \<Rightarrow> pystr" where
  "ustr s = map of_char s"

text \<open>
  The values a cell of the loaded table can hold: a missing value (\<open>None\<close> or the
  float \<open>NaN\<close>), a string, an integer or a boolean. Floats other than \<open>NaN\<close> are
  left out: their \<open>str()\<close> is floating-point formatting.
\<close>

datatype cell = PNone | PNaN | PStr pystr | PInt int | PBool bool

text \<open>\<open>pd.isna\<close> on a scalar.\<close>

fun isna :: "cell \<Rightarrow> bool" where
  "isna PNone = True"
| "isna PNaN = True"
| "isna _ = False"

fun digits :: "nat \<Rightarrow> pystr" where
  "digits n = (if n < 10 then [48 + n] else digits (n div 10) @ [48 + n mod 10])"

declare digits.simps [simp del]

text \<open>Python's \<open>str(x)\<close>.\<close>

fun py_str :: "cell \<Rightarrow> pystr" where
  "py_str PNone = ustr ''None''"
| "py_str PNaN = ustr ''nan''"
| "py_str (PStr s) = s"
| "py_str (PInt i) = (if i < 0 then 45 # digits (nat (- i)) else digits (nat i))"
| "py_str (PBool b) = (if b then ustr ''True'' else ustr ''False'')"

text \<open>
  The whitespace of \<open>str.strip()\<close> and of \<^verbatim>\<open>\s\<close> in a \<open>str\<close> pattern (CPython's
  \<open>Py_UNICODE_ISSPACE\<close>): U+0009..U+000D, U+001C..U+0020, U+0085, U+00A0, U+1680,
  U+2000..U+200A, U+2028, U+2029, U+202F, U+205F, U+3000.
\<close>

definition is_space :: "nat \<Rightarrow> bool" where
  "is_space c \<longleftrightarrow>
     (9 \<le> c \<and> c \<le> 13) \<or> (28 \<le> c \<and> c \<le> 32) \<or> c = 133 \<or> c = 160 \<or> c = 5760 \<or>
     (8192 \<le> c \<and> c \<le> 8202) \<or> c = 8232 \<or> c = 8233 \<or> c = 8239 \<or> c = 8287 \<or>
     c = 12288"

text \<open>\<open>s.strip()\<close>\<close>

definition py_strip :: "pystr \<Rightarrow> pystr" where
  "py_strip s = rev (dropWhile is_space (rev (dropWhile is_space s)))"

text \<open>\<open>s.replace(nbsp, " ")\<close>, where \<open>nbsp\<close> is the no-break space U+00A0 (160).\<close>

definition replace_nbsp :: "pystr \<Rightarrow> pystr" where
  "replace_nbsp s = map (\<lambda>c. if c = 160 then 32 else c) s"

text \<open>\<open>s.startswith(p)\<close>\<close>

definition starts_with :: "pystr \<Rightarrow> pystr \<Rightarrow> bool" where
  "starts_with s p \<longleftrightarrow> take (length p) s = p"

section \<open>Regular expressions of \<open>jobs_clean.py\<close>\<close>

text \<open>
  A compiled pattern is modelled by its anchored matcher: applied to the text that starts
  at the current position, it returns the length of the match there, or \<open>None\<close>.
\<close>

type_synonym matcher = "pystr \<Rightarrow> nat option"

text \<open>
  \<open>pattern.sub(" ", s)\<close>: scan from the left; where the pattern matches, emit one space
  and continue after the match; elsewhere copy the character. None of the four patterns
  below matches the empty string, so the empty-match rule of \<open>re.sub\<close> never applies.
\<close>

fun re_sub :: "matcher \<Rightarrow> pystr \<Rightarrow> pystr" where
  "re_sub m [] = []"
| "re_sub m (c # cs) =
     (case m (c # cs) of
        Some (Suc n) \<Rightarrow> 32 # re_sub m (drop n cs)
      | _ \<Rightarrow> c # re_sub m cs)"

text \<open>\<open>pattern.search(s) is not None\<close>: the pattern matches at some position.\<close>

fun re_search :: "matcher \<Rightarrow> pystr \<Rightarrow> bool" where
  "re_search m [] = (m [] \<noteq> None)"
| "re_search m (c # cs) = (m (c # cs) \<noteq> None \<or> re_search m cs)"

text \<open>
  \<^verbatim>\<open>_HTML = re.compile(r"<[^>]+>")\<close>: a less-than sign (60), the longest run of
  characters other than the greater-than sign (62), which must not be empty, and a
  greater-than sign.
\<close>

definition match_HTML :: matcher where
  "match_HTML s =
     (case s of
        [] \<Rightarrow> None
      | c # cs \<Rightarrow>
          if c \<noteq> 60 then None
          else let run = takeWhile (\<lambda>x. x \<noteq> 62) cs in
            if run = [] then None
            else (case dropWhile (\<lambda>x. x \<noteq> 62) cs of
                    [] \<Rightarrow> None
                  | _ # _ \<Rightarrow> Some (length run + 2)))"

text \<open>\<^verbatim>\<open>\S+\<close> after a literal prefix \<open>p\<close>: the longest run of non-whitespace, not empty.\<close>

definition lit_nonspace :: "pystr \<Rightarrow> matcher" where
  "lit_nonspace p s =
     (let run = takeWhile (\<lambda>c. \<not> is_space c) (drop (length p) s) in
      if starts_with s p \<and> run \<noteq> [] then Some (length p + length run) else None)"

text \<open>
  \<^verbatim>\<open>_URLS = re.compile(r"(https?://\S+|www\.\S+)")\<close>: the first alternative with the
  optional \<open>s\<close> taken (greedy), then without it, then the second alternative.
\<close>

definition match_URLS :: matcher where
  "match_URLS s =
     (case lit_nonspace (ustr ''https://'') s of
        Some n \<Rightarrow> Some n
      | None \<Rightarrow>
         (case lit_nonspace (ustr ''http://'') s of
            Some n \<Rightarrow> Some n
          | None \<Rightarrow> lit_nonspace (ustr ''www.'') s))"

text \<open>\<^verbatim>\<open>_MULTI_SPACE = re.compile(r"\s+")\<close>\<close>

definition match_MULTI_SPACE :: matcher where
  "match_MULTI_SPACE s =
     (let run = takeWhile is_space s in
      if run = [] then None else Some (length run))"

text \<open>
  The characters kept by the description filter: \<^verbatim>\<open>A-Za-z0-9\<close>, \<^verbatim>\<open>\s\<close> and
  \<^verbatim>\<open>+ # . - / % ( ) : ,\<close>.
\<close>

definition ascii_letter :: "nat \<Rightarrow> bool" where
  "ascii_letter c \<longleftrightarrow> (65 \<le> c \<and> c \<le> 90) \<or> (97 \<le> c \<and> c \<le> 122)"

definition ascii_digit :: "nat \<Rightarrow> bool" where
  "ascii_digit c \<longleftrightarrow> 48 \<le> c \<and> c \<le> 57"

definition tech_punct :: "nat \<Rightarrow> bool" where
  "tech_punct c \<longleftrightarrow> c \<in> set (ustr ''+#.-/%():,'')"

definition allowed_desc :: "nat \<Rightarrow> bool" where
  "allowed_desc c \<longleftrightarrow> ascii_letter c \<or> ascii_digit c \<or> is_space c \<or> tech_punct c"

text \<open>
  \<^verbatim>\<open>_ALLOWED_DESC = re.compile(r"[^A-Za-z0-9\s\+\#\.\-\/\%\(\)\:\,]")\<close>: one character
  outside the class.
\<close>

definition match_ALLOWED_DESC :: matcher where
  "match_ALLOWED_DESC s =
     (case s of [] \<Rightarrow> None | c # _ \<Rightarrow> if allowed_desc c then None else Some 1)"

section \<open>The two cleaning functions\<close>

definition clean_text :: "cell \<Rightarrow> pystr" where
  "clean_text s0 =
     (if isna s0 then []
      else
        let s = py_str s0;
            s = replace_nbsp s;
            s = re_sub match_HTML s;
            s = py_strip (re_sub match_MULTI_SPACE s)
        in s)"

definition clean_description :: "cell \<Rightarrow> pystr" where
  "clean_description text =
     (if isna text then []
      else
        let s = py_str text;
            s = replace_nbsp s;
            s = re_sub match_HTML s;
            s = re_sub match_URLS s;
            s = re_sub match_ALLOWED_DESC s;
            s = py_strip (re_sub match_MULTI_SPACE s)
        in s)"

section \<open>The pipeline of \<open>jobs_clean.py\<close>\<close>

text \<open>
  The table read by \<open>pd.read_csv\<close>: the header as read, and the rows, each a list of
  cells in column order. A name that occurs twice in the header after stripping is looked
  up at its first position.
\<close>

record raw_table =
  columns :: "pystr list"
  rows :: "cell list list"

text \<open>
  \<open>df[name]\<close> for one row. A row shorter than the header is padded with \<open>NaN\<close>, as
  \<open>read_csv\<close> does.
\<close>

definition col_value :: "pystr list \<Rightarrow> cell list \<Rightarrow> pystr \<Rightarrow> cell" where
  "col_value cols row name = (case map_of (zip cols row) name of Some v \<Rightarrow> v | None \<Rightarrow> PNaN)"

text \<open>\<open>df[name] if name in df.columns else ""\<close>\<close>

definition opt_col :: "pystr list \<Rightarrow> cell list \<Rightarrow> pystr \<Rightarrow> cell" where
  "opt_col cols row name = (if name \<in> set cols then col_value cols row name else PStr [])"

text \<open>\<open>.fillna("")\<close> on one cell.\<close>

definition fillna :: "cell \<Rightarrow> cell" where
  "fillna v = (if isna v then PStr [] else v)"

text \<open>One row of \<open>out\<close> after steps 3 to 5: the cleaned text columns are strings.\<close>

record out_row =
  job_id :: cell
  title :: pystr
  company_id :: cell
  location :: pystr
  description :: pystr
  work_type :: pystr
  remote_allowed :: cell
  experience_level :: pystr
  job_posting_url :: pystr

text \<open>
  Steps 3 (build the standardized columns), 4 (clean the text columns) and 5 (fill
  missing \<open>remote_allowed\<close>), for one row.
\<close>

definition build_row :: "pystr list \<Rightarrow> cell list \<Rightarrow> out_row" where
  "build_row cols row =
     \<lparr> job_id = col_value cols row (ustr ''job_id''),
       title = clean_text (col_value cols row (ustr ''title'')),
       company_id = opt_col cols row (ustr ''company_id''),
       location = clean_text (opt_col cols row (ustr ''location'')),
       description = clean_description (col_value cols row (ustr ''description'')),
       work_type = clean_text (opt_col cols row (ustr ''formatted_work_type'')),
       remote_allowed = fillna (opt_col cols row (ustr ''remote_allowed'')),
       experience_level = clean_text (opt_col cols row (ustr ''formatted_experience_level'')),
       job_posting_url = clean_text (opt_col cols row (ustr ''job_posting_url'')) \<rparr>"

text \<open>Step 6: \<open>desc_len\<close>, and the two successive row selections.\<close>

definition desc_len :: "out_row \<Rightarrow> int" where
  "desc_len r = int (length (description r))"

definition quality_filter :: "out_row list \<Rightarrow> out_row list" where
  "quality_filter out =
     (let out = filter (\<lambda>r. description r \<noteq> []) out;
          out = filter (\<lambda>r. 80 \<le> desc_len r) out
      in out)"

text \<open>
  Step 7: \<open>desc_sig\<close> is \<open>description[:250]\<close>; the subset of \<open>drop_duplicates\<close> is
  \<open>title\<close>, \<open>location\<close>, \<open>desc_sig\<close>.
\<close>

definition desc_sig :: "out_row \<Rightarrow> pystr" where
  "desc_sig r = take 250 (description r)"

definition signature :: "out_row \<Rightarrow> pystr \<times> pystr \<times> pystr" where
  "signature r = (title r, location r, desc_sig r)"

text \<open>
  \<open>DataFrame.drop_duplicates(subset=...)\<close> with the default \<open>keep="first"\<close>: a row is
  dropped when its key was seen in an earlier row.
\<close>

fun drop_seen :: "('a \<Rightarrow> 'k) \<Rightarrow> 'k list \<Rightarrow> 'a list \<Rightarrow> 'a list" where
  "drop_seen key seen [] = []"
| "drop_seen key seen (r # rs) =
     (if key r \<in> set seen then drop_seen key seen rs
      else r # drop_seen key (key r # seen) rs)"

definition drop_duplicates :: "('a \<Rightarrow> 'k) \<Rightarrow> 'a list \<Rightarrow> 'a list" where
  "drop_duplicates key rs = drop_seen key [] rs"

text \<open>
  The message of the \<open>ValueError\<close> is an f-string: literal text and the \<open>repr\<close> of two
  lists of column names.
\<close>

datatype fragment = Text pystr | List_repr "pystr list"

datatype error = ValueError "fragment list"

datatype line =
    Raw_shape nat nat
  | Dropped_short int
  | Dropped_duplicates int
  | Clean_shape nat nat

text \<open>
  What a run does: the lines it prints, the table it writes to \<open>OUT_PATH\<close> (if
  \<open>to_csv\<close> is reached) and the exception it raises (if any).
\<close>

record outcome =
  printed :: "line list"
  written :: "out_row list option"
  raised :: "error option"

definition required :: "pystr list" where
  "required = [ustr ''job_id'', ustr ''title'', ustr ''description'']"

definition main :: "raw_table \<Rightarrow> outcome" where
  "main df =
     (let cols = map py_strip (columns df);
          p1 = Raw_shape (length (rows df)) (length cols);
          missing = filter (\<lambda>c. c \<notin> set cols) required
      in
        if missing \<noteq> [] then
          \<lparr> printed = [p1], written = None,
            raised = Some (ValueError
              [Text (ustr ''Missing required columns: ''), List_repr missing,
               Text (10 # ustr ''Found: ''), List_repr cols]) \<rparr>
        else
          let out = map (build_row cols) (rows df);
              before = int (length out);
              out = quality_filter out;
              p2 = Dropped_short (before - int (length out));
              before = int (length out);
              out = drop_duplicates signature out;
              p3 = Dropped_duplicates (before - int (length out));
              p4 = Clean_shape (length out) 9
          in \<lparr> printed = [p1, p2, p3, p4], written = Some out, raised = None \<rparr>)"

section \<open>The adapter of \<open>llm_reasoning.py\<close>\<close>

text \<open>
  A value parsed by \<open>json.loads\<close>. An object is a Python \<open>dict\<close>: an association list
  in insertion order. A float is kept as its literal.
\<close>

datatype json =
    JNull
  | JBool bool
  | JInt int
  | JFloat pystr
  | JStr pystr
  | JArr "json list"
  | JObj "(pystr \<times> json) list"

text \<open>\<open>d[k] = v\<close>: the value of an existing key is replaced in place, a new key is appended.\<close>

fun dict_set :: "pystr \<Rightarrow> json \<Rightarrow> (pystr \<times> json) list \<Rightarrow> (pystr \<times> json) list" where
  "dict_set k v [] = [(k, v)]"
| "dict_set k v ((k', v') # d) = (if k' = k then (k, v) # d else (k', v') # dict_set k v d)"

text \<open>\<open>d.get(k)\<close>\<close>

definition dict_get :: "(pystr \<times> json) list \<Rightarrow> pystr \<Rightarrow> json option" where
  "dict_get d k = map_of d k"

definition dict_keys :: "(pystr \<times> json) list \<Rightarrow> pystr set" where
  "dict_keys d = fst ` set d"

datatype adapter_error =
    FileNotFoundError
  | JSONDecodeError
  | NotImplementedError
  | TypeError
  | ProviderError

text \<open>
  What the adapter takes from outside: the files, the \<open>json\<close> module, and the provider
  call. \<open>call_llm\<close> is a hook (``Replace this with your LLM call''), so it is a
  parameter here; the body in the repository is \<open>call_llm_shipped\<close>.
\<close>

record world =
  files :: "pystr \<Rightarrow> pystr option"
  json_loads :: "pystr \<Rightarrow> adapter_error + json"
  json_dumps :: "json \<Rightarrow> pystr"
  call_llm :: "pystr \<Rightarrow> adapter_error + pystr"

definition call_llm_shipped :: "pystr \<Rightarrow> adapter_error + pystr" where
  "call_llm_shipped message = Inl NotImplementedError"

definition PROMPT_PATH :: pystr where
  "PROMPT_PATH = ustr ''llm_prompt.md''"

text \<open>\<open>path.read_text(encoding="utf-8")\<close>\<close>

definition read_text :: "world \<Rightarrow> pystr \<Rightarrow> adapter_error + pystr" where
  "read_text w path = (case files w path of None \<Rightarrow> Inl FileNotFoundError | Some t \<Rightarrow> Inr t)"

definition load_prompt :: "world \<Rightarrow> adapter_error + pystr" where
  "load_prompt w = read_text w PROMPT_PATH"

definition build_message :: "world \<Rightarrow> pystr \<Rightarrow> int \<Rightarrow> json \<Rightarrow> json \<Rightarrow> pystr" where
  "build_message w prompt_template fit_score resume_json job_json =
     (let payload = JObj [(ustr ''fit_score'', JInt fit_score),
                          (ustr ''resume_json'', resume_json),
                          (ustr ''job_json'', job_json)]
      in prompt_template @ [10, 10] @ ustr ''### INPUT'' @ [10] @ json_dumps w payload @ [10, 10]
         @ ustr ''### OUTPUT (JSON only)'' @ [10])"

definition safe_parse_json :: "world \<Rightarrow> pystr \<Rightarrow> adapter_error + json" where
  "safe_parse_json w text = (let text = py_strip text in json_loads w text)"

text \<open>
  \<open>result["fit_score"] = fit_score\<close>: item assignment with a string key works on a
  \<open>dict\<close> only; on any other parsed value it raises \<open>TypeError\<close>.
\<close>

definition set_item :: "json \<Rightarrow> pystr \<Rightarrow> json \<Rightarrow> adapter_error + json" where
  "set_item obj k v = (case obj of JObj d \<Rightarrow> Inr (JObj (dict_set k v d)) | _ \<Rightarrow> Inl TypeError)"

definition run_one :: "world \<Rightarrow> pystr \<Rightarrow> pystr \<Rightarrow> int \<Rightarrow> adapter_error + json" where
  "run_one w job_path resume_path fit_score =
     (case load_prompt w of Inl e \<Rightarrow> Inl e | Inr prompt_template \<Rightarrow>
      case read_text w resume_path of Inl e \<Rightarrow> Inl e | Inr resume_text \<Rightarrow>
      case json_loads w resume_text of Inl e \<Rightarrow> Inl e | Inr resume_json \<Rightarrow>
      case read_text w job_path of Inl e \<Rightarrow> Inl e | Inr job_text \<Rightarrow>
      case json_loads w job_text of Inl e \<Rightarrow> Inl e | Inr job_json \<Rightarrow>
      let message = build_message w prompt_template fit_score resume_json job_json in
      case call_llm w message of Inl e \<Rightarrow> Inl e | Inr raw \<Rightarrow>
      case safe_parse_json w raw of Inl e \<Rightarrow> Inl e | Inr result \<Rightarrow>
      set_item result (ustr ''fit_score'') (JInt fit_score))"

section \<open>Normal forms of cleaned text\<close>

text \<open>
  Every whitespace character is a single ASCII space (32) followed by a character that is
  not whitespace.
\<close>

primrec spaced :: "pystr \<Rightarrow> bool" where
  "spaced [] = True"
| "spaced (c # cs) =
     ((is_space c \<longrightarrow> c = 32 \<and> (case cs of [] \<Rightarrow> True | d # _ \<Rightarrow> \<not> is_space d)) \<and> spaced cs)"

text \<open>Single-spaced, with no whitespace at either end.\<close>

definition tidy :: "pystr \<Rightarrow> bool" where
  "tidy s \<longleftrightarrow> spaced s \<and> (s \<noteq> [] \<longrightarrow> \<not> is_space (hd s) \<and> \<not> is_space (last s))"

section \<open>Sample inputs\<close>

text \<open>A small table, a table without the \<open>description\<close> column, and a provider that answers.\<close>

definition sample_table :: raw_table where
  "sample_table =
     \<lparr> columns = [ustr '' job_id'', ustr ''title '', ustr ''description'', ustr ''location''],
       rows =
         [[PInt 1, PStr (ustr ''  Senior  Engineer ''), PStr (replicate 80 120), PStr (ustr ''Remote'')],
          [PInt 2, PStr (ustr ''Senior Engineer''), PStr (replicate 80 120), PStr (ustr ''Remote'')],
          [PInt 3, PStr (ustr ''Data Analyst''), PStr (ustr ''too short''), PNaN]] \<rparr>"

definition sample_out :: "out_row list" where
  "sample_out =
     [\<lparr> job_id = PInt 1, title = ustr ''Senior Engineer'', company_id = PStr [],
        location = ustr ''Remote'', description = replicate 80 120,
        work_type = [], remote_allowed = PStr [], experience_level = [],
        job_posting_url = [] \<rparr>]"

definition bad_table :: raw_table where
  "bad_table =
     \<lparr> columns = [ustr ''job_id'', ustr '' title''],
       rows = [[PInt 1, PStr (ustr ''Data Analyst'')]] \<rparr>"

definition sample_reply :: "(pystr \<times> json) list" where
  "sample_reply = [(ustr ''fit_score'', JInt 10), (ustr ''summary'', JStr (ustr ''ok''))]"

definition sample_world :: world where
  "sample_world =
     \<lparr> files = map_of
         [(PROMPT_PATH, ustr ''Explain the score.''),
          (ustr ''samples/job_1.json'', ustr ''{}''),
          (ustr ''samples/resume_1.json'', ustr ''{}'')],
       json_loads = (\<lambda>t. if t = ustr ''{}'' then Inr (JObj [])
                          else if t = ustr ''REPLY'' then Inr (JObj sample_reply)
                          else Inl JSONDecodeError),
       json_dumps = (\<lambda>j. ustr ''{}''),
       call_llm = (\<lambda>message. Inr (ustr '' REPLY '')) \<rparr>"

section \<open>Facts about substitution and search\<close>

lemma set_re_sub: "set (re_sub m s) \<subseteq> insert 32 (set s)"
proof (induction m s rule: re_sub.induct)
  case (1 m)
  then show ?case by simp
next
  case (2 m c cs)
  show ?case
  proof (cases "m (c # cs)")
    case None
    with 2 show ?thesis by auto
  next
    case (Some k)
    show ?thesis
    proof (cases k)
      case 0
      with Some 2 show ?thesis by auto
    next
      case (Suc n)
      have "set (drop n cs) \<subseteq> set cs" by (rule set_drop_subset)
      with Suc Some 2 show ?thesis by auto
    qed
  qed
qed

lemma re_search_iff: "re_search m s \<longleftrightarrow> (\<exists>ys zs. s = ys @ zs \<and> m zs \<noteq> None)"
proof (induction s)
  case Nil
  then show ?case by simp
next
  case (Cons c cs)
  show ?case
  proof
    assume "re_search m (c # cs)"
    then consider "m (c # cs) \<noteq> None" | "re_search m cs" by auto
    then show "\<exists>ys zs. c # cs = ys @ zs \<and> m zs \<noteq> None"
    proof cases
      case 1
      then have "c # cs = [] @ (c # cs) \<and> m (c # cs) \<noteq> None" by simp
      then show ?thesis by blast
    next
      case 2
      with Cons obtain ys zs where "cs = ys @ zs" "m zs \<noteq> None" by blast
      then have "c # cs = (c # ys) @ zs \<and> m zs \<noteq> None" by simp
      then show ?thesis by blast
    qed
  next
    assume "\<exists>ys zs. c # cs = ys @ zs \<and> m zs \<noteq> None"
    then obtain ys zs where d: "c # cs = ys @ zs" and mz: "m zs \<noteq> None" by blast
    show "re_search m (c # cs)"
    proof (cases ys)
      case Nil
      with d have "zs = c # cs" by simp
      with mz have "m (c # cs) \<noteq> None" by simp
      then show ?thesis by simp
    next
      case (Cons y ys')
      with d have "cs = ys' @ zs" by simp
      with mz Cons.IH have "re_search m cs" by blast
      then show ?thesis by simp
    qed
  qed
qed

lemma re_search_mid: "re_search m zs \<Longrightarrow> re_search m (ys @ zs)"
  unfolding re_search_iff by (metis append.assoc)

lemma re_search_append:
  assumes mono: "\<And>t w. m t \<noteq> None \<Longrightarrow> m (t @ w) \<noteq> None"
    and "re_search m t"
  shows "re_search m (t @ w)"
proof -
  from assms(2) obtain ys zs where "t = ys @ zs" "m zs \<noteq> None"
    unfolding re_search_iff by blast
  then have "t @ w = ys @ (zs @ w) \<and> m (zs @ w) \<noteq> None" using mono by simp
  then show ?thesis unfolding re_search_iff by blast
qed

lemma re_sub_fix: "\<not> re_search m s \<Longrightarrow> re_sub m s = s"
  by (induction s) auto

lemma re_sub_take:
  "32 \<notin> set (take j (re_sub m s)) \<Longrightarrow> take j (re_sub m s) = take j s"
proof (induction m s arbitrary: j rule: re_sub.induct)
  case (1 m)
  then show ?case by simp
next
  case (2 m c cs)
  show ?case
  proof (cases j)
    case 0
    then show ?thesis by simp
  next
    case (Suc j')
    with 2 show ?thesis
      by (cases "m (c # cs)") (auto split: nat.splits)
  qed
qed

lemma py_strip_decomp:
  "\<exists>a w. s = a @ py_strip s @ w"
proof -
  let ?u = "dropWhile is_space s"
  have "?u = rev (dropWhile is_space (rev ?u)) @ rev (takeWhile is_space (rev ?u))"
    by (metis rev_append rev_rev_ident takeWhile_dropWhile_id)
  then have "?u = py_strip s @ rev (takeWhile is_space (rev ?u))"
    unfolding py_strip_def .
  moreover have "s = takeWhile is_space s @ ?u" by simp
  ultimately show ?thesis by metis
qed

lemma re_search_strip:
  assumes mono: "\<And>t w. m t \<noteq> None \<Longrightarrow> m (t @ w) \<noteq> None"
    and "re_search m (py_strip s)"
  shows "re_search m s"
proof -
  obtain a w where s: "s = a @ py_strip s @ w" using py_strip_decomp by blast
  have "re_search m (py_strip s @ w)" using mono assms(2) by (rule re_search_append)
  then have "re_search m (a @ py_strip s @ w)" by (rule re_search_mid)
  with s show ?thesis by simp
qed

lemma set_py_strip: "set (py_strip s) \<subseteq> set s"
proof -
  obtain a w where s: "s = a @ py_strip s @ w" using py_strip_decomp by blast
  have "set (py_strip s) \<subseteq> set (a @ py_strip s @ w)" by auto
  with s show ?thesis by simp
qed

lemma is_space_32: "is_space 32"
  by (simp add: is_space_def)

lemma collapse_space:
  "is_space c \<Longrightarrow>
     re_sub match_MULTI_SPACE (c # cs) = 32 # re_sub match_MULTI_SPACE (dropWhile is_space cs)"
  by (simp add: match_MULTI_SPACE_def dropWhile_eq_drop)

lemma collapse_nonspace:
  "\<not> is_space c \<Longrightarrow> re_sub match_MULTI_SPACE (c # cs) = c # re_sub match_MULTI_SPACE cs"
  by (simp add: match_MULTI_SPACE_def)

lemma spaced_collapse: "spaced (re_sub match_MULTI_SPACE s)"
proof (induction "length s" arbitrary: s rule: less_induct)
  case less
  show ?case
  proof (cases s)
    case Nil
    then show ?thesis by simp
  next
    case (Cons c cs)
    show ?thesis
    proof (cases "is_space c")
      case True
      let ?r = "dropWhile is_space cs"
      have "length ?r < length s" using Cons length_dropWhile_le [of is_space cs] by simp
      then have sp: "spaced (re_sub match_MULTI_SPACE ?r)" by (rule less)
      have hd: "case re_sub match_MULTI_SPACE ?r of [] \<Rightarrow> True | d # _ \<Rightarrow> \<not> is_space d"
      proof (cases ?r)
        case Nil
        show ?thesis by (simp only: Nil re_sub.simps list.case)
      next
        case (Cons d ds)
        then have "\<not> is_space d" using hd_dropWhile [of is_space cs] by simp
        with Cons show ?thesis by (simp add: collapse_nonspace del: re_sub.simps)
      qed
      from True Cons sp hd show ?thesis by (simp add: collapse_space del: re_sub.simps)
    next
      case False
      have "length cs < length s" using Cons by simp
      then have "spaced (re_sub match_MULTI_SPACE cs)" by (rule less)
      with False Cons show ?thesis by (simp add: collapse_nonspace del: re_sub.simps)
    qed
  qed
qed

lemma spaced_collapse_fix: "spaced s \<Longrightarrow> re_sub match_MULTI_SPACE s = s"
proof (induction s)
  case Nil
  then show ?case by simp
next
  case (Cons c cs)
  show ?case
  proof (cases "is_space c")
    case True
    with Cons.prems have c: "c = 32" and d: "dropWhile is_space cs = cs" and sp: "spaced cs"
      by (cases cs; simp)+
    have "re_sub match_MULTI_SPACE (c # cs) = 32 # re_sub match_MULTI_SPACE (dropWhile is_space cs)"
      using True by (rule collapse_space)
    also have "\<dots> = 32 # cs" using Cons.IH [OF sp] d by simp
    finally show ?thesis using c by simp
  next
    case False
    with Cons show ?thesis by (simp add: collapse_nonspace del: re_sub.simps)
  qed
qed

lemma spaced_suffix: "spaced (a @ b) \<Longrightarrow> spaced b"
  by (induction a) auto

lemma spaced_prefix: "spaced (a @ b) \<Longrightarrow> spaced a"
proof (induction a)
  case Nil
  then show ?case by simp
next
  case (Cons c a)
  then show ?case by (cases a) (auto split: list.splits)
qed

lemma spaced_strip: "spaced s \<Longrightarrow> spaced (py_strip s)"
proof -
  assume sp: "spaced s"
  obtain a w where s: "s = a @ py_strip s @ w" using py_strip_decomp by blast
  with sp have "spaced (a @ py_strip s @ w)" by simp
  then have "spaced (py_strip s @ w)" by (rule spaced_suffix)
  then show ?thesis by (rule spaced_prefix)
qed

lemma last_dropWhile: "dropWhile P xs \<noteq> [] \<Longrightarrow> last (dropWhile P xs) = last xs"
  by (metis last_appendR takeWhile_dropWhile_id)

lemma strip_ends:
  assumes "py_strip s \<noteq> []"
  shows "\<not> is_space (hd (py_strip s)) \<and> \<not> is_space (last (py_strip s))"
proof -
  let ?u = "dropWhile is_space s"
  let ?d = "dropWhile is_space (rev ?u)"
  from assms have d: "?d \<noteq> []" by (simp add: py_strip_def)
  have u: "?u \<noteq> []"
  proof
    assume e: "?u = []"
    have "?d = []" unfolding e by simp
    with d show False by simp
  qed
  have "last (py_strip s) = hd ?d" by (simp add: py_strip_def last_rev)
  moreover have "\<not> is_space (hd ?d)" using d by (rule hd_dropWhile)
  moreover have "hd (py_strip s) = last ?d" using d by (simp add: py_strip_def hd_rev)
  moreover have "last ?d = last (rev ?u)" using d by (rule last_dropWhile)
  moreover have "last (rev ?u) = hd ?u" by (simp add: last_rev)
  moreover have "\<not> is_space (hd ?u)" using u by (rule hd_dropWhile)
  ultimately show ?thesis by simp
qed

lemma tidy_strip_collapse: "tidy (py_strip (re_sub match_MULTI_SPACE s))"
  unfolding tidy_def using spaced_strip [OF spaced_collapse] strip_ends by blast

lemma dropWhile_hd: "xs \<noteq> [] \<Longrightarrow> \<not> P (hd xs) \<Longrightarrow> dropWhile P xs = xs"
  by (cases xs) auto

lemma strip_fix:
  assumes "s \<noteq> [] \<longrightarrow> \<not> is_space (hd s) \<and> \<not> is_space (last s)"
  shows "py_strip s = s"
proof (cases s)
  case Nil
  then show ?thesis by (simp add: py_strip_def)
next
  case (Cons c cs)
  with assms have h: "\<not> is_space c" and l: "\<not> is_space (last s)" by auto
  from h Cons have 1: "dropWhile is_space s = s" by simp
  from Cons have "rev s \<noteq> []" by simp
  moreover have "hd (rev s) = last s" using Cons by (simp add: hd_rev)
  ultimately have "dropWhile is_space (rev s) = rev s" using l by (simp add: dropWhile_hd)
  with 1 show ?thesis by (simp add: py_strip_def)
qed

lemma tidy_fix: "tidy s \<Longrightarrow> py_strip (re_sub match_MULTI_SPACE s) = s"
  unfolding tidy_def using spaced_collapse_fix strip_fix by simp

lemma tidy_no_nbsp: "tidy s \<Longrightarrow> replace_nbsp s = s"
proof -
  assume "tidy s"
  then have "spaced s" by (simp add: tidy_def)
  then have "\<forall>c\<in>set s. is_space c \<longrightarrow> c = 32" by (induction s) auto
  moreover have "is_space 160" by (simp add: is_space_def)
  ultimately have "160 \<notin> set s" by fastforce
  then show ?thesis unfolding replace_nbsp_def by (induction s) auto
qed

lemma tidy_spaces: "tidy s \<Longrightarrow> c \<in> set s \<Longrightarrow> is_space c \<Longrightarrow> c = 32"
proof -
  assume "tidy s"
  then have "spaced s" by (simp add: tidy_def)
  then have "\<forall>c\<in>set s. is_space c \<longrightarrow> c = 32" by (induction s) auto
  then show "c \<in> set s \<Longrightarrow> is_space c \<Longrightarrow> c = 32" by blast
qed

section \<open>HTML tags\<close>

lemma case_list_Some:
  "(\<exists>v. (case xs of [] \<Rightarrow> None | y # ys \<Rightarrow> Some k) = Some v) = (xs \<noteq> [])"
  by (cases xs) auto

lemma match_HTML_iff:
  "match_HTML s \<noteq> None \<longleftrightarrow> (\<exists>cs. s = 60 # cs \<and> cs \<noteq> [] \<and> hd cs \<noteq> 62 \<and> 62 \<in> set cs)"
proof (cases s)
  case Nil
  then show ?thesis by (simp add: match_HTML_def)
next
  case (Cons c cs)
  have "match_HTML (c # cs) \<noteq> None \<longleftrightarrow>
      c = 60 \<and> takeWhile (\<lambda>x. x \<noteq> 62) cs \<noteq> [] \<and> dropWhile (\<lambda>x. x \<noteq> 62) cs \<noteq> []"
    by (simp add: match_HTML_def Let_def case_list_Some)
  also have "\<dots> \<longleftrightarrow> c = 60 \<and> cs \<noteq> [] \<and> hd cs \<noteq> 62 \<and> 62 \<in> set cs"
    by (auto simp: takeWhile_eq_Nil_iff dropWhile_eq_Nil_conv)
  finally show ?thesis using Cons by simp
qed

lemma match_HTML_append: "match_HTML t \<noteq> None \<Longrightarrow> match_HTML (t @ w) \<noteq> None"
  unfolding match_HTML_iff by auto

lemma re_sub_Nil_iff: "re_sub m s = [] \<longleftrightarrow> s = []"
  by (cases s) (auto split: option.splits nat.splits)

lemma match_HTML_local:
  assumes gt: "\<And>t. m (62 # t) = None"
    and "match_HTML (c # re_sub m cs) \<noteq> None"
  shows "match_HTML (c # cs) \<noteq> None"
proof -
  let ?r = "re_sub m cs"
  from assms(2) have c: "c = 60" and r: "?r \<noteq> []" and h: "hd ?r \<noteq> 62" and g: "62 \<in> set ?r"
    unfolding match_HTML_iff by auto
  from r have cs: "cs \<noteq> []" by (simp add: re_sub_Nil_iff)
  from g set_re_sub [of m cs] have g': "62 \<in> set cs" by auto
  have "hd cs \<noteq> 62"
  proof
    assume "hd cs = 62"
    with cs obtain t where t: "cs = 62 # t" by (cases cs) auto
    have "re_sub m (62 # t) = 62 # re_sub m t" by (simp add: gt)
    with t h show False by simp
  qed
  with c cs g' show ?thesis unfolding match_HTML_iff by simp
qed

lemma match_HTML_32: "match_HTML (32 # r) = None"
  by (simp add: match_HTML_def)

lemma match_HTML_62: "match_HTML (62 # r) = None"
  by (simp add: match_HTML_def)

lemma match_MULTI_SPACE_62: "match_MULTI_SPACE (62 # r) = None"
  by (simp add: match_MULTI_SPACE_def is_space_def)

text \<open>Replacing by a space cannot create a tag.\<close>

lemma HTML_preserved:
  assumes gt: "\<And>t. m (62 # t) = None"
  shows "re_search match_HTML (re_sub m s) \<Longrightarrow> re_search match_HTML s"
proof (induction "length s" arbitrary: s rule: less_induct)
  case less
  show ?case
  proof (cases s)
    case Nil
    with less.prems show ?thesis by simp
  next
    case (Cons c cs)
    have ih: "re_search match_HTML (re_sub m (drop n cs)) \<Longrightarrow> re_search match_HTML cs" for n
    proof -
      assume a: "re_search match_HTML (re_sub m (drop n cs))"
      have "length (drop n cs) < length s" using Cons by simp
      then have "re_search match_HTML (drop n cs)" using a by (rule less.hyps)
      then have "re_search match_HTML (take n cs @ drop n cs)" by (rule re_search_mid)
      then show ?thesis by simp
    qed
    show ?thesis
    proof (cases "\<exists>n. m (c # cs) = Some (Suc n)")
      case True
      then obtain n where n: "m (c # cs) = Some (Suc n)" by blast
      with less.prems Cons have "re_search match_HTML (32 # re_sub m (drop n cs))" by simp
      then have "re_search match_HTML (re_sub m (drop n cs))" by (simp add: match_HTML_32)
      then have "re_search match_HTML cs" by (rule ih)
      with Cons show ?thesis by simp
    next
      case False
      then have "re_sub m (c # cs) = c # re_sub m cs"
        by (auto split: option.splits nat.splits)
      with less.prems Cons have "re_search match_HTML (c # re_sub m cs)" by simp
      then consider "match_HTML (c # re_sub m cs) \<noteq> None" | "re_search match_HTML (re_sub m cs)"
        by auto
      then show ?thesis
      proof cases
        case 1
        with gt have "match_HTML (c # cs) \<noteq> None" by (rule match_HTML_local)
        with Cons show ?thesis by simp
      next
        case 2
        then have "re_search match_HTML (re_sub m (drop 0 cs))" by simp
        then have "re_search match_HTML cs" by (rule ih)
        with Cons show ?thesis by simp
      qed
    qed
  qed
qed

text \<open>After the tags are replaced, no tag is left.\<close>

lemma no_HTML_after_sub: "\<not> re_search match_HTML (re_sub match_HTML s)"
proof (induction "length s" arbitrary: s rule: less_induct)
  case less
  show ?case
  proof (cases s)
    case Nil
    then show ?thesis by (simp add: match_HTML_def)
  next
    case (Cons c cs)
    have ih: "\<not> re_search match_HTML (re_sub match_HTML (drop n cs))" for n
    proof -
      have "length (drop n cs) < length s" using Cons by simp
      then show ?thesis by (rule less.hyps)
    qed
    show ?thesis
    proof (cases "\<exists>n. match_HTML (c # cs) = Some (Suc n)")
      case True
      then obtain n where n: "match_HTML (c # cs) = Some (Suc n)" by blast
      then have "re_sub match_HTML (c # cs) = 32 # re_sub match_HTML (drop n cs)" by simp
      with ih [of n] Cons show ?thesis by (simp add: match_HTML_32)
    next
      case False
      then have e: "re_sub match_HTML (c # cs) = c # re_sub match_HTML cs"
        by (auto split: option.splits nat.splits)
      have none: "match_HTML (c # cs) = None"
      proof (cases "match_HTML (c # cs)")
        case None
        then show ?thesis .
      next
        case (Some k)
        with False have "k = 0" by (cases k) auto
        with Some show ?thesis
          by (auto simp: match_HTML_def Let_def split: list.splits if_splits)
      qed
      have "match_HTML (c # re_sub match_HTML cs) = None"
      proof (rule ccontr)
        assume "match_HTML (c # re_sub match_HTML cs) \<noteq> None"
        with match_HTML_62 have "match_HTML (c # cs) \<noteq> None" by (rule match_HTML_local)
        with none show False by simp
      qed
      moreover have "\<not> re_search match_HTML (re_sub match_HTML cs)" using ih [of 0] by simp
      ultimately show ?thesis using e Cons by simp
    qed
  qed
qed

section \<open>URLs\<close>

lemma lit_nonspace_iff:
  "lit_nonspace p s \<noteq> None \<longleftrightarrow> (\<exists>x. \<not> is_space x \<and> take (Suc (length p)) s = p @ [x])"
proof
  assume "lit_nonspace p s \<noteq> None"
  then have p: "take (length p) s = p"
    and run: "takeWhile (\<lambda>c. \<not> is_space c) (drop (length p) s) \<noteq> []"
    by (auto simp: lit_nonspace_def Let_def starts_with_def split: if_splits)
  from run have d: "drop (length p) s \<noteq> []" and h: "\<not> is_space (hd (drop (length p) s))"
    by (auto simp: takeWhile_eq_Nil_iff)
  from d have len: "length p < length s" by simp
  then have "take (Suc (length p)) s = take (length p) s @ [s ! length p]"
    by (rule take_Suc_conv_app_nth)
  moreover have "hd (drop (length p) s) = s ! length p" using len by (rule hd_drop_conv_nth)
  ultimately show "\<exists>x. \<not> is_space x \<and> take (Suc (length p)) s = p @ [x]"
    using p h by auto
next
  assume "\<exists>x. \<not> is_space x \<and> take (Suc (length p)) s = p @ [x]"
  then obtain x where x: "\<not> is_space x" and t: "take (Suc (length p)) s = p @ [x]" by blast
  have "take (length p) (take (Suc (length p)) s) = take (length p) s" by simp
  with t have p: "take (length p) s = p" by simp
  have "drop (length p) (take (Suc (length p)) s) = [x]" using t by simp
  then have "take 1 (drop (length p) s) = [x]" by (simp add: drop_take)
  then obtain r where "drop (length p) s = x # r" by (cases "drop (length p) s") auto
  with x p show "lit_nonspace p s \<noteq> None"
    by (simp add: lit_nonspace_def Let_def starts_with_def)
qed

lemma lit_nonspace_append: "lit_nonspace p t \<noteq> None \<Longrightarrow> lit_nonspace p (t @ w) \<noteq> None"
proof -
  assume "lit_nonspace p t \<noteq> None"
  then obtain x where x: "\<not> is_space x" and t: "take (Suc (length p)) t = p @ [x]"
    unfolding lit_nonspace_iff by blast
  from t have "length (take (Suc (length p)) t) = Suc (length p)" by simp
  then have "Suc (length p) \<le> length t" by simp
  then have "take (Suc (length p)) (t @ w) = take (Suc (length p)) t" by simp
  with x t show ?thesis unfolding lit_nonspace_iff by auto
qed

lemma lit_nonspace_local:
  assumes "32 \<notin> set p" and "lit_nonspace p (c # re_sub m cs) \<noteq> None"
  shows "lit_nonspace p (c # cs) \<noteq> None"
proof -
  from assms(2) obtain x where x: "\<not> is_space x"
    and t: "take (Suc (length p)) (c # re_sub m cs) = p @ [x]"
    unfolding lit_nonspace_iff by blast
  from x have "x \<noteq> 32" using is_space_32 by auto
  with assms(1) have "32 \<notin> set (p @ [x])" by simp
  with t have "32 \<notin> set (take (Suc (length p)) (c # re_sub m cs))" by simp
  then have "32 \<notin> set (take (length p) (re_sub m cs))" by simp
  then have "take (length p) (re_sub m cs) = take (length p) cs" by (rule re_sub_take)
  with t have "take (Suc (length p)) (c # cs) = p @ [x]" by simp
  with x show ?thesis unfolding lit_nonspace_iff by blast
qed

lemma lit_nonspace_32: "p \<noteq> [] \<Longrightarrow> hd p \<noteq> 32 \<Longrightarrow> lit_nonspace p (32 # r) = None"
  by (cases p) (auto simp: lit_nonspace_def starts_with_def)

lemma match_URLS_iff:
  "match_URLS s \<noteq> None \<longleftrightarrow>
     lit_nonspace (ustr ''https://'') s \<noteq> None \<or> lit_nonspace (ustr ''http://'') s \<noteq> None \<or>
     lit_nonspace (ustr ''www.'') s \<noteq> None"
  by (auto simp: match_URLS_def split: option.splits)

lemma match_URLS_append: "match_URLS t \<noteq> None \<Longrightarrow> match_URLS (t @ w) \<noteq> None"
  unfolding match_URLS_iff using lit_nonspace_append by blast

lemma match_URLS_local:
  assumes "match_URLS (c # re_sub m cs) \<noteq> None"
  shows "match_URLS (c # cs) \<noteq> None"
proof -
  have "32 \<notin> set (ustr ''https://'')" "32 \<notin> set (ustr ''http://'')" "32 \<notin> set (ustr ''www.'')"
    by (simp_all add: ustr_def)
  with assms show ?thesis unfolding match_URLS_iff using lit_nonspace_local by blast
qed

lemma match_URLS_32: "match_URLS (32 # r) = None"
proof -
  have "lit_nonspace (ustr ''https://'') (32 # r) = None"
    by (rule lit_nonspace_32) (simp_all add: ustr_def)
  moreover have "lit_nonspace (ustr ''http://'') (32 # r) = None"
    by (rule lit_nonspace_32) (simp_all add: ustr_def)
  moreover have "lit_nonspace (ustr ''www.'') (32 # r) = None"
    by (rule lit_nonspace_32) (simp_all add: ustr_def)
  ultimately show ?thesis by (simp add: match_URLS_def)
qed

lemma match_URLS_Nil: "match_URLS [] = None"
  by (simp add: match_URLS_def lit_nonspace_def starts_with_def ustr_def)

lemma match_URLS_pos: "match_URLS s \<noteq> Some 0"
  by (auto simp: match_URLS_def lit_nonspace_def Let_def split: option.splits if_splits)

text \<open>Replacing by a space cannot create a URL.\<close>

lemma URLS_preserved: "re_search match_URLS (re_sub m s) \<Longrightarrow> re_search match_URLS s"
proof (induction "length s" arbitrary: s rule: less_induct)
  case less
  show ?case
  proof (cases s)
    case Nil
    with less.prems show ?thesis by simp
  next
    case (Cons c cs)
    have ih: "re_search match_URLS (re_sub m (drop n cs)) \<Longrightarrow> re_search match_URLS cs" for n
    proof -
      assume a: "re_search match_URLS (re_sub m (drop n cs))"
      have "length (drop n cs) < length s" using Cons by simp
      then have "re_search match_URLS (drop n cs)" using a by (rule less.hyps)
      then have "re_search match_URLS (take n cs @ drop n cs)" by (rule re_search_mid)
      then show ?thesis by simp
    qed
    show ?thesis
    proof (cases "\<exists>n. m (c # cs) = Some (Suc n)")
      case True
      then obtain n where n: "m (c # cs) = Some (Suc n)" by blast
      with less.prems Cons have "re_search match_URLS (32 # re_sub m (drop n cs))" by simp
      then have "re_search match_URLS (re_sub m (drop n cs))" by (simp add: match_URLS_32)
      then have "re_search match_URLS cs" by (rule ih)
      with Cons show ?thesis by simp
    next
      case False
      then have "re_sub m (c # cs) = c # re_sub m cs"
        by (auto split: option.splits nat.splits)
      with less.prems Cons have "re_search match_URLS (c # re_sub m cs)" by simp
      then consider "match_URLS (c # re_sub m cs) \<noteq> None" | "re_search match_URLS (re_sub m cs)"
        by auto
      then show ?thesis
      proof cases
        case 1
        then have "match_URLS (c # cs) \<noteq> None" by (rule match_URLS_local)
        with Cons show ?thesis by simp
      next
        case 2
        then have "re_search match_URLS (re_sub m (drop 0 cs))" by simp
        then have "re_search match_URLS cs" by (rule ih)
        with Cons show ?thesis by simp
      qed
    qed
  qed
qed

text \<open>After the URLs are replaced, no URL is left.\<close>

lemma no_URLS_after_sub: "\<not> re_search match_URLS (re_sub match_URLS s)"
proof (induction "length s" arbitrary: s rule: less_induct)
  case less
  show ?case
  proof (cases s)
    case Nil
    then show ?thesis by (simp add: match_URLS_Nil)
  next
    case (Cons c cs)
    have ih: "\<not> re_search match_URLS (re_sub match_URLS (drop n cs))" for n
    proof -
      have "length (drop n cs) < length s" using Cons by simp
      then show ?thesis by (rule less.hyps)
    qed
    show ?thesis
    proof (cases "match_URLS (c # cs)")
      case None
      then have e: "re_sub match_URLS (c # cs) = c # re_sub match_URLS cs" by simp
      have "match_URLS (c # re_sub match_URLS cs) = None"
      proof (rule ccontr)
        assume "match_URLS (c # re_sub match_URLS cs) \<noteq> None"
        then have "match_URLS (c # cs) \<noteq> None" by (rule match_URLS_local)
        with None show False by simp
      qed
      moreover have "\<not> re_search match_URLS (re_sub match_URLS cs)" using ih [of 0] by simp
      ultimately show ?thesis using e Cons by simp
    next
      case (Some k)
      with match_URLS_pos [of "c # cs"] obtain n where "k = Suc n" by (cases k) auto
      with Some have "re_sub match_URLS (c # cs) = 32 # re_sub match_URLS (drop n cs)" by simp
      with ih [of n] Cons show ?thesis by (simp add: match_URLS_32)
    qed
  qed
qed

section \<open>The allow-list filter\<close>

lemma filter_is_map:
  "re_sub match_ALLOWED_DESC s = map (\<lambda>c. if allowed_desc c then c else 32) s"
  by (induction s) (simp_all add: match_ALLOWED_DESC_def)

lemma allowed_32: "allowed_desc 32"
  by (simp add: allowed_desc_def is_space_def)

lemma filter_allowed: "\<forall>c\<in>set (re_sub match_ALLOWED_DESC s). allowed_desc c"
  by (auto simp: filter_is_map allowed_32)

lemma filter_fix: "\<forall>c\<in>set s. allowed_desc c \<Longrightarrow> re_sub match_ALLOWED_DESC s = s"
  unfolding filter_is_map by (induction s) auto

lemma no_lt_no_HTML: "60 \<notin> set s \<Longrightarrow> \<not> re_search match_HTML s"
  unfolding re_search_iff match_HTML_iff by auto

lemma not_allowed_60: "\<not> allowed_desc 60"
  by (simp add: allowed_desc_def ascii_letter_def ascii_digit_def tech_punct_def is_space_def ustr_def)


lemma tidy_Nil: "tidy []"
  by (simp add: tidy_def)

lemma clean_text_tidy: "tidy (clean_text v)"
  by (simp add: clean_text_def tidy_Nil tidy_strip_collapse)

lemma clean_text_no_HTML: "\<not> re_search match_HTML (clean_text v)"
proof (cases "isna v")
  case True
  then show ?thesis by (simp add: clean_text_def match_HTML_def)
next
  case False
  let ?h = "re_sub match_HTML (replace_nbsp (py_str v))"
  have "\<not> re_search match_HTML ?h" by (rule no_HTML_after_sub)
  then have "\<not> re_search match_HTML (re_sub match_MULTI_SPACE ?h)"
    using HTML_preserved [of match_MULTI_SPACE ?h] match_MULTI_SPACE_62 by blast
  then have "\<not> re_search match_HTML (py_strip (re_sub match_MULTI_SPACE ?h))"
    using re_search_strip [of match_HTML] match_HTML_append by blast
  with False show ?thesis by (simp add: clean_text_def)
qed

lemma clean_text_fix:
  assumes "tidy s" and "\<not> re_search match_HTML s"
  shows "clean_text (PStr s) = s"
proof -
  have "replace_nbsp s = s" using assms(1) by (rule tidy_no_nbsp)
  moreover have "re_sub match_HTML s = s" using assms(2) by (rule re_sub_fix)
  moreover have "py_strip (re_sub match_MULTI_SPACE s) = s" using assms(1) by (rule tidy_fix)
  ultimately show ?thesis by (simp add: clean_text_def)
qed

lemma clean_description_tidy: "tidy (clean_description v)"
  by (simp add: clean_description_def tidy_Nil tidy_strip_collapse)

lemma clean_description_allowed: "list_all allowed_desc (clean_description v)"
proof (cases "isna v")
  case True
  then show ?thesis by (simp add: clean_description_def)
next
  case False
  let ?f = "re_sub match_ALLOWED_DESC (re_sub match_URLS (re_sub match_HTML (replace_nbsp (py_str v))))"
  have "set (py_strip (re_sub match_MULTI_SPACE ?f)) \<subseteq> set (re_sub match_MULTI_SPACE ?f)"
    by (rule set_py_strip)
  also have "\<dots> \<subseteq> insert 32 (set ?f)" by (rule set_re_sub)
  finally have "\<forall>c\<in>set (py_strip (re_sub match_MULTI_SPACE ?f)). allowed_desc c"
    using filter_allowed [of "re_sub match_URLS (re_sub match_HTML (replace_nbsp (py_str v)))"]
      allowed_32 by auto
  with False show ?thesis by (simp add: clean_description_def list_all_iff)
qed

lemma clean_description_no_URLS: "\<not> re_search match_URLS (clean_description v)"
proof (cases "isna v")
  case True
  then show ?thesis by (simp add: clean_description_def match_URLS_Nil)
next
  case False
  let ?u = "re_sub match_URLS (re_sub match_HTML (replace_nbsp (py_str v)))"
  have "\<not> re_search match_URLS ?u" by (rule no_URLS_after_sub)
  then have "\<not> re_search match_URLS (re_sub match_ALLOWED_DESC ?u)"
    using URLS_preserved by blast
  then have "\<not> re_search match_URLS (re_sub match_MULTI_SPACE (re_sub match_ALLOWED_DESC ?u))"
    using URLS_preserved by blast
  then have "\<not> re_search match_URLS
      (py_strip (re_sub match_MULTI_SPACE (re_sub match_ALLOWED_DESC ?u)))"
    using re_search_strip [of match_URLS] match_URLS_append by blast
  with False show ?thesis by (simp add: clean_description_def)
qed



lemma clean_description_fix:
  assumes "tidy s" and "list_all allowed_desc s" and "\<not> re_search match_URLS s"
  shows "clean_description (PStr s) = s"
proof -
  have "60 \<notin> set s" using assms(2) not_allowed_60 by (auto simp: list_all_iff)
  then have "\<not> re_search match_HTML s" by (rule no_lt_no_HTML)
  then have "re_sub match_HTML s = s" by (rule re_sub_fix)
  moreover have "replace_nbsp s = s" using assms(1) by (rule tidy_no_nbsp)
  moreover have "re_sub match_URLS s = s" using assms(3) by (rule re_sub_fix)
  moreover have "re_sub match_ALLOWED_DESC s = s"
    using assms(2) by (simp add: filter_fix list_all_iff)
  moreover have "py_strip (re_sub match_MULTI_SPACE s) = s" using assms(1) by (rule tidy_fix)
  ultimately show ?thesis by (simp add: clean_description_def)
qed

text \<open>
  Claim C5. Both cleaning functions are idempotent: cleaning the string that a first
  cleaning returned gives that string again, whatever the first input was.
\<close>

theorem C5_clean_idempotent:
  "clean_text (PStr (clean_text v)) = clean_text v \<and>
   clean_description (PStr (clean_description v)) = clean_description v"
  using clean_text_fix [OF clean_text_tidy clean_text_no_HTML]
    clean_description_fix [OF clean_description_tidy clean_description_allowed
      clean_description_no_URLS]
  by simp

text \<open>
  Claim C1. Every character of the output of \<open>clean_description\<close> is an ASCII letter,
  an ASCII digit, whitespace (in fact only the ASCII space), or one of
  \<^verbatim>\<open>+ # . - / % ( ) : ,\<close>. The filter stage replaces every other character by a space and
  keeps the rest, and it runs before the whitespace collapsing: for a value that is not
  missing, \<open>clean_description\<close> is the collapsing and stripping of that pointwise
  replacement, applied to the text left by the tag and URL stages.
\<close>

theorem C1_allow_list_closure:
  "list_all (\<lambda>c. ascii_letter c \<or> ascii_digit c \<or> c = 32 \<or> tech_punct c) (clean_description v) \<and>
   list_all (\<lambda>c. ascii_letter c \<or> ascii_digit c \<or> is_space c \<or> tech_punct c) (clean_description v) \<and>
   re_sub match_ALLOWED_DESC s = map (\<lambda>c. if allowed_desc c then c else 32) s \<and>
   clean_description v =
     (if isna v then []
      else py_strip (re_sub match_MULTI_SPACE
             (map (\<lambda>c. if allowed_desc c then c else 32)
                (re_sub match_URLS (re_sub match_HTML (replace_nbsp (py_str v)))))))"
proof -
  have a: "\<And>c. c \<in> set (clean_description v) \<Longrightarrow> allowed_desc c"
    using clean_description_allowed [of v] by (simp add: list_all_iff)
  have b: "\<And>c. c \<in> set (clean_description v) \<Longrightarrow> is_space c \<Longrightarrow> c = 32"
    using clean_description_tidy [of v] tidy_spaces by blast
  have chars: "list_all (\<lambda>c. ascii_letter c \<or> ascii_digit c \<or> c = 32 \<or> tech_punct c)
       (clean_description v) \<and>
     list_all (\<lambda>c. ascii_letter c \<or> ascii_digit c \<or> is_space c \<or> tech_punct c)
       (clean_description v)"
    unfolding list_all_iff using a b is_space_32 by (auto simp: allowed_desc_def)
  have stage: "clean_description v =
     (if isna v then []
      else py_strip (re_sub match_MULTI_SPACE
             (map (\<lambda>c. if allowed_desc c then c else 32)
                (re_sub match_URLS (re_sub match_HTML (replace_nbsp (py_str v)))))))"
    by (simp add: clean_description_def Let_def filter_is_map)
  from chars filter_is_map [of s] stage show ?thesis by blast
qed


section \<open>Quality filter, duplicates and the run\<close>


lemma quality_filter_eq:
  "quality_filter rs = filter (\<lambda>r. \<not> (description r = [] \<or> length (description r) < 80)) rs"
  by (auto simp: quality_filter_def desc_len_def intro: filter_cong)

lemma length_quality_filter: "length (quality_filter rs) \<le> length rs"
  by (simp add: quality_filter_eq)

lemma drop_seen_sigs:
  "set (map key (drop_seen key seen rs)) = set (map key rs) - set seen"
  by (induction key seen rs rule: drop_seen.induct) auto

lemma drop_seen_distinct: "distinct (map key (drop_seen key seen rs))"
proof (induction key seen rs rule: drop_seen.induct)
  case (1 key seen)
  then show ?case by simp
next
  case (2 key seen x rs)
  show ?case
  proof (cases "key x \<in> set seen")
    case True
    with 2 show ?thesis by simp
  next
    case False
    have "key x \<notin> set (map key (drop_seen key (key x # seen) rs))"
      unfolding drop_seen_sigs by simp
    with 2 False show ?thesis by simp
  qed
qed

lemma length_drop_seen: "length (drop_seen key seen rs) \<le> length rs"
  by (induction key seen rs rule: drop_seen.induct) auto

lemma drop_seen_first:
  "r \<in> set (drop_seen key seen rs) \<Longrightarrow> find (\<lambda>x. key x = key r) rs = Some r"
proof (induction key seen rs rule: drop_seen.induct)
  case (1 key seen)
  then show ?case by simp
next
  case (2 key seen x rs)
  show ?case
  proof (cases "key x \<in> set seen")
    case True
    with 2 have r: "r \<in> set (drop_seen key seen rs)" by simp
    then have "key r \<in> set (map key (drop_seen key seen rs))" by simp
    then have "key r \<notin> set seen" unfolding drop_seen_sigs by simp
    with True have "key x \<noteq> key r" by auto
    with 2 True r show ?thesis by simp
  next
    case False
    with 2 consider "r = x" | "r \<in> set (drop_seen key (key x # seen) rs)" by auto
    then show ?thesis
    proof cases
      case 1
      then show ?thesis by simp
    next
      case b: 2
      then have "key r \<in> set (map key (drop_seen key (key x # seen) rs))" by simp
      then have "key r \<noteq> key x" unfolding drop_seen_sigs by auto
      with 2 False b show ?thesis by auto
    qed
  qed
qed


lemma subseq_drop_seen: "subseq (drop_seen key seen rs) rs"
  by (induction key seen rs rule: drop_seen.induct) auto

lemma set_drop_seen: "set (drop_seen key seen rs) \<subseteq> set rs"
  by (induction key seen rs rule: drop_seen.induct) auto

lemma main_ok:
  assumes "filter (\<lambda>c. c \<notin> set (map py_strip (columns df))) required = []"
  shows "main df =
    (let cols = map py_strip (columns df);
         built = map (build_row cols) (rows df);
         kept = quality_filter built;
         out = drop_duplicates signature kept
     in \<lparr> printed = [Raw_shape (length (rows df)) (length cols),
                      Dropped_short (int (length built) - int (length kept)),
                      Dropped_duplicates (int (length kept) - int (length out)),
                      Clean_shape (length out) 9],
          written = Some out, raised = None \<rparr>)"
  using assms by (simp add: main_def Let_def)

lemma main_fail:
  assumes "filter (\<lambda>c. c \<notin> set (map py_strip (columns df))) required \<noteq> []"
  shows "main df =
    \<lparr> printed = [Raw_shape (length (rows df)) (length (columns df))], written = None,
      raised = Some (ValueError
        [Text (ustr ''Missing required columns: ''),
         List_repr (filter (\<lambda>c. c \<notin> set (map py_strip (columns df))) required),
         Text (10 # ustr ''Found: ''), List_repr (map py_strip (columns df))]) \<rparr>"
  using assms by (simp add: main_def Let_def)

lemma written_main:
  assumes "written (main df) = Some out"
  shows "out = drop_duplicates signature
           (quality_filter (map (build_row (map py_strip (columns df))) (rows df)))"
proof (cases "filter (\<lambda>c. c \<notin> set (map py_strip (columns df))) required = []")
  case True
  with assms show ?thesis by (simp add: main_ok Let_def)
next
  case False
  with assms show ?thesis by (simp add: main_fail)
qed

text \<open>
  Claim C2. The quality filter keeps a row exactly when its cleaned description is not
  empty and has at least 80 characters, that is, it rejects exactly the rows whose
  description is empty or shorter than 80. Every row of the table a run writes has a
  non-empty description of length at least 80.
\<close>

theorem C2_quality_filter:
  "quality_filter rs = filter (\<lambda>r. \<not> (description r = [] \<or> length (description r) < 80)) rs \<and>
   (written (main df) = Some out \<longrightarrow>
      list_all (\<lambda>r. description r \<noteq> [] \<and> 80 \<le> length (description r)) out)"
proof -
  have "list_all (\<lambda>r. description r \<noteq> [] \<and> 80 \<le> length (description r)) out"
    if w: "written (main df) = Some out"
  proof -
    let ?built = "map (build_row (map py_strip (columns df))) (rows df)"
    from w have "out = drop_seen signature [] (quality_filter ?built)"
      using written_main by (simp add: drop_duplicates_def)
    then have "set out \<subseteq> set (quality_filter ?built)" using set_drop_seen by metis
    then show ?thesis unfolding quality_filter_eq list_all_iff by auto
  qed
  then show ?thesis using quality_filter_eq by blast
qed

text \<open>
  Claim C3. The duplicate key is (title, location, first 250 characters of the cleaned
  description). \<open>drop_duplicates\<close> on that key returns rows with pairwise different keys,
  in input order (a subsequence of the input), every key of the input still present, and
  each kept row is the first row of the input with its key. The table a run writes
  stands in exactly that relation to the rows that passed the quality filter: pairwise
  different keys, a subsequence of those rows, every key of those rows still present,
  and each written row the first of those rows with its key.
\<close>

theorem C3_duplicates:
  "signature r = (title r, location r, take 250 (description r)) \<and>
   distinct (map signature (drop_duplicates signature rs)) \<and>
   subseq (drop_duplicates signature rs) rs \<and>
   set (map signature (drop_duplicates signature rs)) = set (map signature rs) \<and>
   list_all (\<lambda>x. find (\<lambda>y. signature y = signature x) rs = Some x)
     (drop_duplicates signature rs) \<and>
   (written (main df) = Some out \<longrightarrow>
      distinct (map signature out) \<and>
      subseq out (quality_filter (map (build_row (map py_strip (columns df))) (rows df))) \<and>
      set (map signature out) =
        set (map signature
          (quality_filter (map (build_row (map py_strip (columns df))) (rows df)))) \<and>
      list_all
        (\<lambda>x. find (\<lambda>y. signature y = signature x)
               (quality_filter (map (build_row (map py_strip (columns df))) (rows df)))
             = Some x) out)"
proof -
  have key: "signature r = (title r, location r, take 250 (description r))"
    by (simp add: signature_def desc_sig_def)
  have g: "distinct (map signature (drop_duplicates signature xs)) \<and>
     subseq (drop_duplicates signature xs) xs \<and>
     set (map signature (drop_duplicates signature xs)) = set (map signature xs) \<and>
     list_all (\<lambda>x. find (\<lambda>y. signature y = signature x) xs = Some x)
       (drop_duplicates signature xs)" for xs :: "out_row list"
  proof -
    have "set (map signature (drop_duplicates signature xs)) = set (map signature xs)"
      unfolding drop_duplicates_def drop_seen_sigs by simp
    moreover have "list_all (\<lambda>x. find (\<lambda>y. signature y = signature x) xs = Some x)
       (drop_duplicates signature xs)"
      unfolding list_all_iff drop_duplicates_def using drop_seen_first by fast
    ultimately show ?thesis
      using drop_seen_distinct [of signature "[]" xs] subseq_drop_seen [of signature "[]" xs]
      by (simp add: drop_duplicates_def)
  qed
  let ?kept = "quality_filter (map (build_row (map py_strip (columns df))) (rows df))"
  have run: "distinct (map signature out) \<and> subseq out ?kept \<and>
      set (map signature out) = set (map signature ?kept) \<and>
      list_all (\<lambda>x. find (\<lambda>y. signature y = signature x) ?kept = Some x) out"
    if w: "written (main df) = Some out"
  proof -
    from w have "out = drop_duplicates signature ?kept" by (rule written_main)
    with g [of ?kept] show ?thesis by simp
  qed
  from key g [of rs] run show ?thesis by blast
qed

text \<open>
  Claim C7. When the run raises no error, it prints the raw shape, the number dropped by
  the quality filter, the number dropped as duplicates, and the clean shape; the output
  has at most as many rows as the input, both drop counts are non-negative, the first is
  the number of built rows that the quality filter rejects, and the two drop counts plus
  the output row count equal the input row count.
\<close>

theorem C7_counts:
  assumes "raised (main df) = None"
  shows "\<exists>dq dd out.
     printed (main df) =
       [Raw_shape (length (rows df)) (length (columns df)), Dropped_short dq,
        Dropped_duplicates dd, Clean_shape (length out) 9] \<and>
     written (main df) = Some out \<and>
     length out \<le> length (rows df) \<and>
     dq + dd + int (length out) = int (length (rows df)) \<and>
     0 \<le> dq \<and> 0 \<le> dd \<and>
     dq = int (length (filter (\<lambda>r. description r = [] \<or> length (description r) < 80)
                        (map (build_row (map py_strip (columns df))) (rows df))))"
proof -
  let ?cols = "map py_strip (columns df)"
  let ?built = "map (build_row ?cols) (rows df)"
  let ?kept = "quality_filter ?built"
  let ?out = "drop_duplicates signature ?kept"
  have ok: "filter (\<lambda>c. c \<notin> set ?cols) required = []"
  proof (rule ccontr)
    assume "filter (\<lambda>c. c \<notin> set ?cols) required \<noteq> []"
    then have "raised (main df) \<noteq> None" by (simp add: main_fail)
    with assms show False by simp
  qed
  have l1: "length ?kept \<le> length ?built" by (rule length_quality_filter)
  have l2: "length ?out \<le> length ?kept" by (simp add: drop_duplicates_def length_drop_seen)
  have "length (filter (\<lambda>r. \<not> (description r = [] \<or> length (description r) < 80)) ?built)
      + length (filter (\<lambda>r. \<not> \<not> (description r = [] \<or> length (description r) < 80)) ?built)
      = length ?built"
    by (rule sum_length_filter_compl)
  then have l3: "int (length ?built) - int (length ?kept) =
      int (length (filter (\<lambda>r. description r = [] \<or> length (description r) < 80) ?built))"
    by (simp add: quality_filter_eq)
  let ?dq = "int (length ?built) - int (length ?kept)"
  let ?dd = "int (length ?kept) - int (length ?out)"
  have "printed (main df) =
       [Raw_shape (length (rows df)) (length (columns df)), Dropped_short ?dq,
        Dropped_duplicates ?dd, Clean_shape (length ?out) 9] \<and>
     written (main df) = Some ?out \<and>
     length ?out \<le> length (rows df) \<and>
     ?dq + ?dd + int (length ?out) = int (length (rows df)) \<and>
     0 \<le> ?dq \<and> 0 \<le> ?dd \<and>
     ?dq = int (length (filter (\<lambda>r. description r = [] \<or> length (description r) < 80) ?built))"
    using l1 l2 l3 by (simp add: main_ok [OF ok] Let_def)
  then show ?thesis by blast
qed

text \<open>
  Claim C8. With the column names stripped, the list of missing required columns is
  non-empty exactly when one of \<open>job_id\<close>, \<open>title\<close>, \<open>description\<close> is absent. In that case
  the run raises the \<open>ValueError\<close> whose message lists the missing columns and the stripped
  columns found, and nothing is written; otherwise no error is raised.
\<close>

theorem C8_schema_error:
  "let cols = map py_strip (columns df);
       missing = filter (\<lambda>c. c \<notin> set cols) required
   in (missing \<noteq> [] \<longleftrightarrow> \<not> set required \<subseteq> set cols) \<and>
      (missing \<noteq> [] \<longrightarrow>
         raised (main df) = Some (ValueError
           [Text (ustr ''Missing required columns: ''), List_repr missing,
            Text (10 # ustr ''Found: ''), List_repr cols]) \<and>
         written (main df) = None) \<and>
      (missing = [] \<longrightarrow> raised (main df) = None)"
proof -
  let ?cols = "map py_strip (columns df)"
  let ?missing = "filter (\<lambda>c. c \<notin> set ?cols) required"
  have a: "?missing \<noteq> [] \<longleftrightarrow> \<not> set required \<subseteq> set ?cols"
    by (auto simp: filter_empty_conv)
  have b: "raised (main df) = Some (ValueError
           [Text (ustr ''Missing required columns: ''), List_repr ?missing,
            Text (10 # ustr ''Found: ''), List_repr ?cols]) \<and>
         written (main df) = None" if "?missing \<noteq> []"
    using that by (simp add: main_fail)
  have c: "raised (main df) = None" if "?missing = []"
    using that by (simp add: main_ok Let_def)
  from a b c show ?thesis unfolding Let_def by blast
qed

section \<open>Strings that cleaning leaves alone\<close>

lemma nospace_spaced: "\<forall>c\<in>set s. \<not> is_space c \<Longrightarrow> spaced s"
  by (induction s) auto

lemma nospace_tidy: "\<forall>c\<in>set s. \<not> is_space c \<Longrightarrow> tidy s"
  unfolding tidy_def using nospace_spaced by (cases s) auto

lemma lit_nonspace_hd:
  assumes "lit_nonspace p s \<noteq> None" and "p \<noteq> []"
  shows "hd p \<in> set s"
proof -
  from assms(1) obtain x where t: "take (Suc (length p)) s = p @ [x]"
    unfolding lit_nonspace_iff by blast
  from assms(2) have "hd p \<in> set (p @ [x])" by (cases p) auto
  with t have "hd p \<in> set (take (Suc (length p)) s)" by simp
  then show ?thesis by (rule in_set_takeD)
qed

lemma match_URLS_hd: "match_URLS s \<noteq> None \<Longrightarrow> 104 \<in> set s \<or> 119 \<in> set s"
proof -
  assume "match_URLS s \<noteq> None"
  then consider "lit_nonspace (ustr ''https://'') s \<noteq> None"
    | "lit_nonspace (ustr ''http://'') s \<noteq> None"
    | "lit_nonspace (ustr ''www.'') s \<noteq> None"
    unfolding match_URLS_iff by blast
  then show ?thesis
  proof cases
    case 1
    then have "hd (ustr ''https://'') \<in> set s" by (rule lit_nonspace_hd) (simp add: ustr_def)
    then show ?thesis by (simp add: ustr_def)
  next
    case 2
    then have "hd (ustr ''http://'') \<in> set s" by (rule lit_nonspace_hd) (simp add: ustr_def)
    then show ?thesis by (simp add: ustr_def)
  next
    case 3
    then have "hd (ustr ''www.'') \<in> set s" by (rule lit_nonspace_hd) (simp add: ustr_def)
    then show ?thesis by (simp add: ustr_def)
  qed
qed

lemma no_hw_no_URLS:
  assumes "104 \<notin> set s" and "119 \<notin> set s"
  shows "\<not> re_search match_URLS s"
proof
  assume "re_search match_URLS s"
  then obtain ys zs where s: "s = ys @ zs" and m: "match_URLS zs \<noteq> None"
    unfolding re_search_iff by blast
  from m have "104 \<in> set zs \<or> 119 \<in> set zs" by (rule match_URLS_hd)
  with s assms show False by auto
qed

lemma plain_clean:
  assumes "\<forall>c\<in>set s. \<not> is_space c \<and> allowed_desc c \<and> c \<noteq> 104 \<and> c \<noteq> 119"
  shows "clean_text (PStr s) = s \<and> clean_description (PStr s) = s"
proof -
  from assms have t: "tidy s" by (simp add: nospace_tidy)
  from assms have a: "list_all allowed_desc s" by (simp add: list_all_iff)
  from assms have "104 \<notin> set s" "119 \<notin> set s" by auto
  then have u: "\<not> re_search match_URLS s" by (rule no_hw_no_URLS)
  from a not_allowed_60 have "60 \<notin> set s" by (auto simp: list_all_iff)
  then have h: "\<not> re_search match_HTML s" by (rule no_lt_no_HTML)
  from t h have "clean_text (PStr s) = s" by (rule clean_text_fix)
  moreover from t a u have "clean_description (PStr s) = s" by (rule clean_description_fix)
  ultimately show ?thesis by simp
qed

lemma digits_ascii: "\<forall>c\<in>set (digits n). ascii_digit c"
proof (induction n rule: digits.induct)
  case (1 n)
  show ?case
  proof (cases "n < 10")
    case True
    then show ?thesis by (subst digits.simps) (simp add: ascii_digit_def)
  next
    case False
    have "n mod 10 < 10" by simp
    then have "ascii_digit (48 + n mod 10)" unfolding ascii_digit_def by linarith
    with False 1 show ?thesis by (subst digits.simps) simp
  qed
qed

lemma digits_not_Nil: "digits n \<noteq> []"
  by (subst digits.simps) simp

lemma plain_digit:
  "ascii_digit c \<or> c = 45 \<Longrightarrow> \<not> is_space c \<and> allowed_desc c \<and> c \<noteq> 104 \<and> c \<noteq> 119"
  by (auto simp: ascii_digit_def is_space_def allowed_desc_def tech_punct_def ustr_def)

lemma py_str_int_plain:
  "\<forall>c\<in>set (py_str (PInt i)). \<not> is_space c \<and> allowed_desc c \<and> c \<noteq> 104 \<and> c \<noteq> 119"
  using digits_ascii plain_digit by auto

lemma py_str_bool_plain:
  "\<forall>c\<in>set (py_str (PBool b)). \<not> is_space c \<and> allowed_desc c \<and> c \<noteq> 104 \<and> c \<noteq> 119"
  by (cases b)
    (simp_all add: ustr_def is_space_def allowed_desc_def ascii_letter_def)

lemma clean_nonnull: "\<not> isna v \<Longrightarrow>
  clean_text v = clean_text (PStr (py_str v)) \<and>
  clean_description v = clean_description (PStr (py_str v))"
  by (simp add: clean_text_def clean_description_def)

text \<open>
  Claim C4, as amended. For a missing value (\<open>None\<close>, \<open>NaN\<close>) both functions return the
  empty string. A value that is not missing and not a string is converted by \<open>str()\<close> and
  cleaned like that string: for an integer and for a boolean both functions return
  \<open>str(value)\<close> itself, which is not empty.
\<close>

theorem C4_null_and_scalars:
  "clean_text PNone = [] \<and> clean_text PNaN = [] \<and>
   clean_description PNone = [] \<and> clean_description PNaN = [] \<and>
   clean_text (PInt i) = py_str (PInt i) \<and> clean_description (PInt i) = py_str (PInt i) \<and>
   py_str (PInt i) \<noteq> [] \<and>
   clean_text (PBool b) = py_str (PBool b) \<and> clean_description (PBool b) = py_str (PBool b) \<and>
   py_str (PBool b) \<noteq> []"
proof -
  have n: "clean_text PNone = [] \<and> clean_text PNaN = [] \<and>
   clean_description PNone = [] \<and> clean_description PNaN = []"
    by (simp add: clean_text_def clean_description_def)
  have i: "clean_text (PInt i) = py_str (PInt i) \<and> clean_description (PInt i) = py_str (PInt i)"
    using plain_clean [OF py_str_int_plain, of i] clean_nonnull [of "PInt i"] by simp
  have b: "clean_text (PBool b) = py_str (PBool b) \<and>
      clean_description (PBool b) = py_str (PBool b)"
    using plain_clean [OF py_str_bool_plain, of b] clean_nonnull [of "PBool b"] by simp
  have e: "py_str (PInt i) \<noteq> [] \<and> py_str (PBool b) \<noteq> []"
    using digits_not_Nil by (simp add: ustr_def)
  from n i b e show ?thesis by blast
qed

text \<open>
  Claim C4 as stated fails: the integer 5 is a non-string input, and both functions
  return a non-empty string for it.
\<close>

theorem C4_counterexample:
  "clean_text (PInt 5) \<noteq> [] \<and> clean_description (PInt 5) \<noteq> []"
proof -
  have "py_str (PInt 5) \<noteq> []" using digits_not_Nil by simp
  moreover have "clean_text (PInt 5) = py_str (PInt 5) \<and>
      clean_description (PInt 5) = py_str (PInt 5)"
    using plain_clean [OF py_str_int_plain, of 5] clean_nonnull [of "PInt 5"] by simp
  ultimately show ?thesis by simp
qed

section \<open>The sample run\<close>

lemmas eval_defs = ustr_def py_strip_def is_space_def replace_nbsp_def starts_with_def
  match_HTML_def lit_nonspace_def match_URLS_def match_MULTI_SPACE_def
  ascii_letter_def ascii_digit_def tech_punct_def allowed_desc_def match_ALLOWED_DESC_def
  clean_text_def clean_description_def Let_def

lemma clean_xs: "clean_description (PStr (replicate n 120)) = replicate n 120"
proof -
  have "\<not> is_space 120 \<and> allowed_desc 120"
    by (simp add: is_space_def allowed_desc_def ascii_letter_def)
  then have "\<forall>c\<in>set (replicate n 120). \<not> is_space c \<and> allowed_desc c \<and> c \<noteq> 104 \<and> c \<noteq> 119"
    by simp
  then show ?thesis using plain_clean by blast
qed

lemma sample_columns:
  "map py_strip (columns sample_table) =
     [ustr ''job_id'', ustr ''title'', ustr ''description'', ustr ''location'']"
  by (simp add: sample_table_def eval_defs)

lemma sample_title_1: "clean_text (PStr (ustr ''  Senior  Engineer '')) = ustr ''Senior Engineer''"
  by (simp add: eval_defs)

lemma sample_title_2: "clean_text (PStr (ustr ''Senior Engineer'')) = ustr ''Senior Engineer''"
  by (simp add: eval_defs)

lemma sample_title_3: "clean_text (PStr (ustr ''Data Analyst'')) = ustr ''Data Analyst''"
  by (simp add: eval_defs)

lemma sample_location: "clean_text (PStr (ustr ''Remote'')) = ustr ''Remote''"
  by (simp add: eval_defs)

lemma sample_short: "clean_description (PStr (ustr ''too short'')) = ustr ''too short''"
  by (simp add: eval_defs)

lemma sample_empty: "clean_text (PStr []) = [] \<and> clean_text PNaN = []"
  by (simp add: eval_defs)

lemma ustr_eq_iff: "ustr a = ustr b \<longleftrightarrow> a = b"
proof -
  have "inj (of_char :: char \<Rightarrow> nat)" by (simp add: inj_on_def)
  then show ?thesis unfolding ustr_def by (rule inj_map_eq_map)
qed

lemma sample_built:
  "map (build_row (map py_strip (columns sample_table))) (rows sample_table) =
     [\<lparr> job_id = PInt 1, title = ustr ''Senior Engineer'', company_id = PStr [],
        location = ustr ''Remote'', description = replicate 80 120,
        work_type = [], remote_allowed = PStr [], experience_level = [],
        job_posting_url = [] \<rparr>,
      \<lparr> job_id = PInt 2, title = ustr ''Senior Engineer'', company_id = PStr [],
        location = ustr ''Remote'', description = replicate 80 120,
        work_type = [], remote_allowed = PStr [], experience_level = [],
        job_posting_url = [] \<rparr>,
      \<lparr> job_id = PInt 3, title = ustr ''Data Analyst'', company_id = PStr [],
        location = [], description = ustr ''too short'',
        work_type = [], remote_allowed = PStr [], experience_level = [],
        job_posting_url = [] \<rparr>]"
  unfolding sample_columns
  by (simp add: sample_table_def build_row_def col_value_def opt_col_def fillna_def
      sample_title_1 sample_title_2 sample_title_3 sample_location sample_short sample_empty
      clean_xs ustr_eq_iff)

lemma sample_missing:
  "filter (\<lambda>c. c \<notin> set (map py_strip (columns sample_table))) required = []"
  unfolding sample_columns by (simp add: required_def ustr_eq_iff)

lemma main_sample:
  "main sample_table =
     \<lparr> printed = [Raw_shape 3 4, Dropped_short 1, Dropped_duplicates 1, Clean_shape 1 9],
       written = Some sample_out, raised = None \<rparr>"
  unfolding main_ok [OF sample_missing] Let_def sample_built
  by (simp add: sample_table_def quality_filter_def desc_len_def drop_duplicates_def
      signature_def desc_sig_def sample_out_def ustr_def)

text \<open>
  An asterisk is outside the allow-list: it becomes a space, it is not deleted.
\<close>

theorem C1_allow_list_closure_witness:
  "\<not> isna (PStr (ustr ''a*b'')) \<and>
   clean_description (PStr (ustr ''a*b'')) = ustr ''a b'' \<and>
   list_all (\<lambda>c. ascii_letter c \<or> ascii_digit c \<or> c = 32 \<or> tech_punct c) (ustr ''a b'')"
proof -
  have e: "py_strip (re_sub match_MULTI_SPACE
             (map (\<lambda>c. if allowed_desc c then c else 32)
                (re_sub match_URLS (re_sub match_HTML (replace_nbsp (py_str (PStr (ustr ''a*b'')))))))) =
           ustr ''a b''"
    by (simp add: eval_defs)
  have n: "\<not> isna (PStr (ustr ''a*b''))" by simp
  from C1_allow_list_closure [of "PStr (ustr ''a*b'')" "[]"]
  have c: "clean_description (PStr (ustr ''a*b'')) =
     (if isna (PStr (ustr ''a*b'')) then []
      else py_strip (re_sub match_MULTI_SPACE
             (map (\<lambda>c. if allowed_desc c then c else 32)
                (re_sub match_URLS (re_sub match_HTML (replace_nbsp (py_str (PStr (ustr ''a*b'')))))))))"
    and l: "list_all (\<lambda>c. ascii_letter c \<or> ascii_digit c \<or> c = 32 \<or> tech_punct c)
       (clean_description (PStr (ustr ''a*b'')))"
    by blast+
  from c n e have r: "clean_description (PStr (ustr ''a*b'')) = ustr ''a b''"
    by (simp only: if_False)
  from l r n show ?thesis by (simp only: simp_thms)
qed

text \<open>
  The sample run writes one row, and its description has 80 characters.
\<close>

theorem C2_quality_filter_witness:
  "written (main sample_table) = Some sample_out \<and>
   list_all (\<lambda>r. description r \<noteq> [] \<and> 80 \<le> length (description r)) sample_out"
proof -
  have w: "written (main sample_table) = Some sample_out" by (simp add: main_sample)
  with C2_quality_filter [of "[]" sample_table sample_out] show ?thesis by simp
qed

text \<open>
  The sample run drops the second of two rows with the same key.
\<close>

theorem C3_duplicates_witness:
  "written (main sample_table) = Some sample_out \<and>
   distinct (map signature sample_out) \<and>
   subseq sample_out
     (quality_filter (map (build_row (map py_strip (columns sample_table))) (rows sample_table))) \<and>
   set (map signature sample_out) =
     set (map signature
       (quality_filter (map (build_row (map py_strip (columns sample_table)))
          (rows sample_table)))) \<and>
   list_all
     (\<lambda>x. find (\<lambda>y. signature y = signature x)
            (quality_filter (map (build_row (map py_strip (columns sample_table)))
               (rows sample_table)))
          = Some x) sample_out"
proof -
  have w: "written (main sample_table) = Some sample_out" by (simp add: main_sample)
  with C3_duplicates [of undefined "[]" sample_table sample_out] show ?thesis by blast
qed

text \<open>
  The sample run raises no error, and its counts add up.
\<close>

theorem C7_counts_witness:
  "raised (main sample_table) = None \<and>
   (\<exists>dq dd out.
     printed (main sample_table) =
       [Raw_shape (length (rows sample_table)) (length (columns sample_table)),
        Dropped_short dq, Dropped_duplicates dd, Clean_shape (length out) 9] \<and>
     written (main sample_table) = Some out \<and>
     length out \<le> length (rows sample_table) \<and>
     dq + dd + int (length out) = int (length (rows sample_table)))"
proof -
  have r: "raised (main sample_table) = None" by (simp add: main_sample)
  from C7_counts [OF r] r show ?thesis by blast
qed

text \<open>
  A table without \<open>description\<close> raises the error naming it; the sample table raises
  none.
\<close>

theorem C8_schema_error_witness:
  "raised (main bad_table) = Some (ValueError
      [Text (ustr ''Missing required columns: ''), List_repr [ustr ''description''],
       Text (10 # ustr ''Found: ''), List_repr [ustr ''job_id'', ustr ''title'']]) \<and>
   written (main bad_table) = None \<and>
   raised (main sample_table) = None"
proof -
  have c1: "map py_strip (columns bad_table) = [ustr ''job_id'', ustr ''title'']"
    by (simp add: bad_table_def eval_defs)
  have m1: "filter (\<lambda>c. c \<notin> set (map py_strip (columns bad_table))) required
      = [ustr ''description'']"
    unfolding c1 by (simp add: required_def ustr_eq_iff)
  from C8_schema_error [of bad_table] m1 c1
  have "raised (main bad_table) = Some (ValueError
      [Text (ustr ''Missing required columns: ''), List_repr [ustr ''description''],
       Text (10 # ustr ''Found: ''), List_repr [ustr ''job_id'', ustr ''title'']]) \<and>
   written (main bad_table) = None" by (simp add: Let_def)
  moreover from C8_schema_error [of sample_table] sample_missing
  have "raised (main sample_table) = None" by (simp add: Let_def)
  ultimately show ?thesis by simp
qed


section \<open>The adapter\<close>

lemma map_of_dict_set: "map_of (dict_set k v d) = (map_of d)(k \<mapsto> v)"
  by (induction k v d rule: dict_set.induct) auto

lemma dict_keys_dict_set: "dict_keys (dict_set k v d) = insert k (dict_keys d)"
  unfolding dict_keys_def by (induction k v d rule: dict_set.induct) auto

lemma others_dict_set:
  "filter (\<lambda>p. fst p \<noteq> k) (dict_set k v d) = filter (\<lambda>p. fst p \<noteq> k) d"
  by (induction k v d rule: dict_set.induct) auto

lemma run_one_Inr:
  assumes "run_one w job_path resume_path fit_score = Inr result"
  shows "\<exists>message raw d.
     call_llm w message = Inr raw \<and> safe_parse_json w raw = Inr (JObj d) \<and>
     result = JObj (dict_set (ustr ''fit_score'') (JInt fit_score) d)"
  using assms
  by (auto simp: run_one_def set_item_def Let_def split: sum.splits json.splits)

lemma run_one_shipped:
  "call_llm w = call_llm_shipped \<Longrightarrow> run_one w job_path resume_path fit_score \<noteq> Inr result"
  by (auto simp: run_one_def call_llm_shipped_def Let_def split: sum.splits)

lemma run_one_sample:
  "run_one sample_world (ustr ''samples/job_1.json'') (ustr ''samples/resume_1.json'') 82 =
     Inr (JObj [(ustr ''fit_score'', JInt 82), (ustr ''summary'', JStr (ustr ''ok''))])"
proof -
  have s: "py_strip (ustr '' REPLY '') = ustr ''REPLY''"
    by (simp add: ustr_def py_strip_def is_space_def)
  show ?thesis
    by (simp add: run_one_def sample_world_def load_prompt_def read_text_def PROMPT_PATH_def
        safe_parse_json_def set_item_def sample_reply_def Let_def s ustr_eq_iff)
qed

text \<open>
  Claim C9. Whenever \<open>run_one\<close> returns, with any files, any \<open>json\<close> functions and any
  provider call, the returned value is an object whose \<open>fit_score\<close> is the supplied
  score.
\<close>

theorem C9_fit_score:
  assumes "run_one w job_path resume_path fit_score = Inr result"
  shows "\<exists>d. result = JObj d \<and> dict_get d (ustr ''fit_score'') = Some (JInt fit_score)"
proof -
  from run_one_Inr [OF assms] obtain d
    where "result = JObj (dict_set (ustr ''fit_score'') (JInt fit_score) d)" by blast
  then show ?thesis by (simp add: dict_get_def map_of_dict_set)
qed

text \<open>
  A run that succeeds: the provider answered 10, the result holds the supplied 82.
\<close>

theorem C9_fit_score_witness:
  "run_one sample_world (ustr ''samples/job_1.json'') (ustr ''samples/resume_1.json'') 82 =
     Inr (JObj [(ustr ''fit_score'', JInt 82), (ustr ''summary'', JStr (ustr ''ok''))]) \<and>
   (\<exists>d. JObj [(ustr ''fit_score'', JInt 82), (ustr ''summary'', JStr (ustr ''ok''))] = JObj d \<and>
        dict_get d (ustr ''fit_score'') = Some (JInt 82))"
  using C9_fit_score [OF run_one_sample] run_one_sample by simp

text \<open>
  Claim C10. Whenever \<open>run_one\<close> returns, the provider returned a text whose parse is an
  object \<open>d\<close>, and the returned object agrees with \<open>d\<close> on every key other than
  \<open>fit_score\<close>; its keys are those of \<open>d\<close> and \<open>fit_score\<close>; its other entries are those
  of \<open>d\<close>, in the same order.
\<close>

theorem C10_frame:
  assumes "run_one w job_path resume_path fit_score = Inr result"
  shows "\<exists>message raw d d'.
     call_llm w message = Inr raw \<and> safe_parse_json w raw = Inr (JObj d) \<and>
     result = JObj d' \<and>
     (\<forall>k. k \<noteq> ustr ''fit_score'' \<longrightarrow> dict_get d' k = dict_get d k) \<and>
     dict_keys d' = insert (ustr ''fit_score'') (dict_keys d) \<and>
     filter (\<lambda>p. fst p \<noteq> ustr ''fit_score'') d' = filter (\<lambda>p. fst p \<noteq> ustr ''fit_score'') d"
proof -
  from run_one_Inr [OF assms] obtain message raw d
    where c: "call_llm w message = Inr raw" and p: "safe_parse_json w raw = Inr (JObj d)"
      and r: "result = JObj (dict_set (ustr ''fit_score'') (JInt fit_score) d)" by blast
  let ?d' = "dict_set (ustr ''fit_score'') (JInt fit_score) d"
  have "\<forall>k. k \<noteq> ustr ''fit_score'' \<longrightarrow> dict_get ?d' k = dict_get d k"
    by (simp add: dict_get_def map_of_dict_set)
  moreover have "dict_keys ?d' = insert (ustr ''fit_score'') (dict_keys d)"
    by (rule dict_keys_dict_set)
  moreover have "filter (\<lambda>p. fst p \<noteq> ustr ''fit_score'') ?d'
      = filter (\<lambda>p. fst p \<noteq> ustr ''fit_score'') d"
    by (rule others_dict_set)
  ultimately show ?thesis using c p r by blast
qed

text \<open>
  In the same run the \<open>summary\<close> entry of the reply is returned unchanged.
\<close>

theorem C10_frame_witness:
  "run_one sample_world (ustr ''samples/job_1.json'') (ustr ''samples/resume_1.json'') 82 =
     Inr (JObj [(ustr ''fit_score'', JInt 82), (ustr ''summary'', JStr (ustr ''ok''))]) \<and>
   (\<exists>message raw d d'.
     call_llm sample_world message = Inr raw \<and>
     safe_parse_json sample_world raw = Inr (JObj d) \<and>
     JObj [(ustr ''fit_score'', JInt 82), (ustr ''summary'', JStr (ustr ''ok''))] = JObj d' \<and>
     (\<forall>k. k \<noteq> ustr ''fit_score'' \<longrightarrow> dict_get d' k = dict_get d k) \<and>
     dict_keys d' = insert (ustr ''fit_score'') (dict_keys d) \<and>
     filter (\<lambda>p. fst p \<noteq> ustr ''fit_score'') d' = filter (\<lambda>p. fst p \<noteq> ustr ''fit_score'') d)"
  using C10_frame [OF run_one_sample] run_one_sample by simp

end
